theory Spec2Isabelle
  imports Main "HOL-Library.Char_ord" "HOL-Library.List_Lexorder"
begin

section \<open>peru/main.py: command registry, longest-match dispatch and handlers\<close>

subsection \<open>Parsed values and the Argument Model\<close>

text \<open>
  docopt hands \<open>Main.run\<close> a dict from the names of the usage text to parsed values:
  \<open>True\<close>/\<open>False\<close> for a command word or switch, a string or \<open>None\<close> for a
  single positional, a list of strings for a repeated positional.
\<close>

datatype pyval = PyNone | PyBool bool | PyStr string | PyList "string list"

text \<open>Python's truth test \<open>bool(v)\<close> on these values.\<close>

fun truthy :: "pyval \<Rightarrow> bool" where
  "truthy PyNone = False"
| "truthy (PyBool b) = b"
| "truthy (PyStr s) = (s \<noteq> [])"
| "truthy (PyList xs) = (xs \<noteq> [])"

text \<open>
  The dict \<open>args\<close>. A subscript \<open>args[name]\<close> on a name that is not a key raises
  \<open>KeyError\<close>, so the dict is a partial map.
\<close>

type_synonym args = "string \<rightharpoonup> pyval"

text \<open>
  Exceptions as values. \<open>PrintableError\<close> carries its \<open>msg\<close>; \<open>KeyError\<close> carries the
  missing key; \<open>OtherError\<close> is any other exception class, by name.
\<close>

datatype error = PrintableError string | KeyError pyval | OtherError string

subsection \<open>The command registry\<close>

text \<open>
  \<open>commands_map\<close> is a dict from a tuple of command words to the handler the decorator
  \<open>@command(...)\<close> was put on. It is modelled as the list of its items in the order the
  dispatcher iterates over them. The dispatcher takes the registry as an argument here,
  where the Python reads the module-level global.
\<close>

type_synonym cmds = "string list"

type_synonym 'f registry = "(cmds \<times> 'f) list"

datatype handler =
    DoSync | DoBuild | DoReup | DoOverride | DoOverrideAdd | DoOverrideDelete
  | DoCopy | DoClean

text \<open>The registrations of main.py, in the order the class body executes them.\<close>

definition commands_map :: "handler registry" where
  "commands_map =
     [([''sync''], DoSync),
      ([''build''], DoBuild),
      ([''reup''], DoReup),
      ([''override''], DoOverride),
      ([''override'', ''add''], DoOverrideAdd),
      ([''override'', ''delete''], DoOverrideDelete),
      ([''copy''], DoCopy),
      ([''clean''], DoClean)]"

subsection \<open>find_matching_command\<close>

text \<open>
  \<open>all(args[cmd] for cmd in cmds)\<close>: the generator is consumed left to right and \<open>all\<close>
  stops at the first falsy value; a missing key raises at the moment it is looked up.
\<close>

fun all_truthy :: "args \<Rightarrow> cmds \<Rightarrow> error + bool" where
  "all_truthy args [] = Inr True"
| "all_truthy args (cmd # rest) =
     (case args cmd of
        None \<Rightarrow> Inl (KeyError (PyStr cmd))
      | Some v \<Rightarrow> if truthy v then all_truthy args rest else Inr False)"

text \<open>
  The list comprehension \<open>matches\<close>: the items of the registry, in iteration order,
  whose command words are all truthy. An exception in the test of one item aborts
  the comprehension.
\<close>

fun matches :: "'f registry \<Rightarrow> args \<Rightarrow> error + (cmds \<times> 'f) list" where
  "matches [] args = Inr []"
| "matches ((cmds, f) # rest) args =
     (case all_truthy args cmds of
        Inl e \<Rightarrow> Inl e
      | Inr b \<Rightarrow>
          (case matches rest args of
             Inl e \<Rightarrow> Inl e
           | Inr ms \<Rightarrow> Inr (if b then (cmds, f) # ms else ms)))"

text \<open>
  The loop over \<open>matches[1:]\<close>, on the pair of variables \<open>(longest_cmds, longest_f)\<close>:
  a later match replaces the current one only when it is strictly longer.
\<close>

fun longest :: "cmds \<times> 'f \<Rightarrow> (cmds \<times> 'f) list \<Rightarrow> cmds \<times> 'f" where
  "longest (longest_cmds, longest_f) [] = (longest_cmds, longest_f)"
| "longest (longest_cmds, longest_f) ((cmds, f) # rest) =
     (if length cmds > length longest_cmds
      then longest (cmds, f) rest
      else longest (longest_cmds, longest_f) rest)"

definition find_matching_command :: "'f registry \<Rightarrow> args \<Rightarrow> error + 'f option" where
  "find_matching_command reg args =
     (case matches reg args of
        Inl e \<Rightarrow> Inl e
      | Inr [] \<Rightarrow> Inr None
      | Inr (m # ms) \<Rightarrow> Inr (Some (snd (longest m ms))))"

text \<open>
  A path is present in the Argument Model when each of its words is a key with a
  truthy value.
\<close>

definition present :: "args \<Rightarrow> cmds \<Rightarrow> bool" where
  "present args cmds = list_all (\<lambda>cmd. case args cmd of None \<Rightarrow> False | Some v \<Rightarrow> truthy v) cmds"

text \<open>Every command word of the registry is a key of the dict (docopt's result holds
  every name of the usage text).\<close>

definition has_keys :: "args \<Rightarrow> 'f registry \<Rightarrow> bool" where
  "has_keys args reg = list_all (\<lambda>(cmds, f). list_all (\<lambda>cmd. args cmd \<noteq> None) cmds) reg"

subsection \<open>The usage text and the version string\<close>

definition newline :: string where
  "newline = [CHR 0x0A]"

definition doc_lines :: "string list" where
  "doc_lines =
     [''Usage:'',
      ''  peru sync [-fqv]'',
      ''  peru build [-fqv] [<rules>...]'',
      ''  peru reup [-qv] [<modules>...]'',
      ''  peru override [list | add <module> <path> | delete <module>]'',
      ''  peru copy [-fqv] <target> [<dest>]'',
      ''  peru clean [-f]'',
      ''  peru (help | --help | --version)'',
      [],
      ''Commands:'',
      ''  sync      apply imports to the working copy'',
      ''  build     run build rules in the working copy'',
      ''  reup      get updated module fields from remotes'',
      ''  override  replace a remote module with a local copy'',
      ''  copy      make a copy of the outputs of a build target'',
      ''  clean     delete imports from the working copy'',
      [],
      ''Options:'',
      ''  -f --force    overwrite existing files'',
      ''  -q --quiet    don't print anything'',
      ''  -v --verbose  print all the things'',
      ''  -h --help     show help'']"

text \<open>\<open>__doc__\<close>: every line of the usage text ends with a newline.\<close>

definition doc :: string where
  "doc = concat (map (\<lambda>l. l @ newline) doc_lines)"

definition version :: string where
  "version = ''peru 0.1''"

subsection \<open>Collaborators, events and the world\<close>

text \<open>
  The runtime, the resolver, the cache, docopt and tempfile are outside main.py. Their
  objects are opaque handles here, and their operations are the fields of a record
  \<open>K\<close> of functions on a collaborator state \<open>'s\<close>; each may raise and may change that
  state. \<open>path_exists\<close> is not called by main.py: it observes the file system, to state
  what \<open>tempfile.mkdtemp\<close> promises.
\<close>

type_synonym env = "(string \<times> string) list"
type_synonym pmodule = string
type_synonym rules = "string list"
type_synonym tree_ref = string
type_synonym import_set = "(string \<times> string) list"

record 's collab =
  docopt :: "string list \<Rightarrow> error + args"
  new_Runtime :: "args \<Rightarrow> env \<Rightarrow> 's \<Rightarrow> (error + unit) \<times> 's"
  apply_imports :: "import_set option \<Rightarrow> 's \<Rightarrow> (error + unit) \<times> 's"
  get_rules :: "pyval \<Rightarrow> 's \<Rightarrow> (error + rules) \<times> 's"
  local_module_do_build :: "rules \<Rightarrow> 's \<Rightarrow> (error + unit) \<times> 's"
  get_all_modules :: "'s \<Rightarrow> (error + pmodule list) \<times> 's"
  get_modules :: "pyval \<Rightarrow> 's \<Rightarrow> (error + pmodule list) \<times> 's"
  reup :: "pmodule \<Rightarrow> 's \<Rightarrow> (error + unit) \<times> 's"
  mkdtemp :: "string \<Rightarrow> 's \<Rightarrow> (error + string) \<times> 's"
  get_tree :: "pyval \<Rightarrow> 's \<Rightarrow> (error + tree_ref) \<times> 's"
  export_tree :: "tree_ref \<Rightarrow> pyval \<Rightarrow> bool \<Rightarrow> 's \<Rightarrow> (error + unit) \<times> 's"
  force :: "'s \<Rightarrow> bool"
  path_exists :: "string \<Rightarrow> 's \<Rightarrow> bool"

text \<open>
  What main.py does to the outside, in order: text it writes to \<open>sys.stdout\<close>, and the
  calls it makes into the collaborators with the arguments it passes.
  \<open>ApplyImports None\<close> is \<open>apply_imports(runtime)\<close>, with no second argument;
  \<open>ApplyImports (Some d)\<close> is \<open>apply_imports(runtime, d)\<close>.
\<close>

datatype event =
    Stdout string
  | RuntimeNew
  | ApplyImports "import_set option"
  | GetRules pyval
  | DoBuildRules rules
  | GetAllModules
  | GetModules pyval
  | Reup pmodule
  | Mkdtemp string
  | GetTree pyval
  | ExportTree tree_ref pyval bool

text \<open>
  Modelled from the spec: the Override Table \<open>runtime.overrides\<close>, whose class is in
  runtime.py, is a mapping from module name to local path with unique keys; it is the
  list of its items here.
\<close>

record 's world =
  events :: "event list"
  overrides :: "(string \<times> string) list"
  isatty :: bool
  sys_argv :: "string list"
  os_environ :: env
  ext :: 's

type_synonym ('a, 's) prog = "'s world \<Rightarrow> (error + 'a) \<times> 's world"

definition returnP :: "'a \<Rightarrow> ('a, 's) prog" where
  "returnP x = (\<lambda>w. (Inr x, w))"

definition raiseP :: "error \<Rightarrow> ('a, 's) prog" where
  "raiseP e = (\<lambda>w. (Inl e, w))"

text \<open>Sequencing: an exception in the first statement skips the rest; what was done
  before it stays done.\<close>

definition thenP :: "('a, 's) prog \<Rightarrow> ('a \<Rightarrow> ('b, 's) prog) \<Rightarrow> ('b, 's) prog" where
  "thenP m f = (\<lambda>w. case m w of (Inl e, w') \<Rightarrow> (Inl e, w') | (Inr x, w') \<Rightarrow> f x w')"

definition emit :: "event \<Rightarrow> (unit, 's) prog" where
  "emit ev = (\<lambda>w. (Inr (), w\<lparr>events := events w @ [ev]\<rparr>))"

text \<open>A call into a collaborator: recorded, then run on the collaborator state.\<close>

definition ext_call :: "event \<Rightarrow> ('s \<Rightarrow> (error + 'a) \<times> 's) \<Rightarrow> ('a, 's) prog" where
  "ext_call ev f =
     thenP (emit ev) (\<lambda>_ w. case f (ext w) of (r, s') \<Rightarrow> (r, w\<lparr>ext := s'\<rparr>))"

text \<open>\<open>args[name]\<close>.\<close>

definition subscript :: "args \<Rightarrow> string \<Rightarrow> (pyval, 's) prog" where
  "subscript args name =
     (case args name of None \<Rightarrow> raiseP (KeyError (PyStr name)) | Some v \<Rightarrow> returnP v)"

text \<open>\<open>sys.stdout.write(s)\<close>, \<open>print(s)\<close> and \<open>print(s, end="")\<close> on a string.\<close>

definition stdout_write :: "string \<Rightarrow> (unit, 's) prog" where
  "stdout_write s = emit (Stdout s)"

definition py_print :: "string \<Rightarrow> (unit, 's) prog" where
  "py_print s = emit (Stdout (s @ newline))"

definition py_print_noend :: "string \<Rightarrow> (unit, 's) prog" where
  "py_print_noend s = emit (Stdout s)"

text \<open>
  \<open>str(v)\<close>, which \<open>print\<close> applies. For a list Python prints the \<open>repr\<close> of each
  element; the quoting and escaping rules of \<open>repr\<close> are not modelled beyond plain
  single quotes. main.py prints a parsed value only in \<open>do_copy\<close>, and there it is the
  string \<open>mkdtemp\<close> returned.
\<close>

fun join_comma :: "string list \<Rightarrow> string" where
  "join_comma [] = []"
| "join_comma [x] = x"
| "join_comma (x # y # rest) = x @ '', '' @ join_comma (y # rest)"

fun pystr :: "pyval \<Rightarrow> string" where
  "pystr PyNone = ''None''"
| "pystr (PyBool b) = (if b then ''True'' else ''False'')"
| "pystr (PyStr s) = s"
| "pystr (PyList xs) = ''['' @ join_comma (map (\<lambda>x. [CHR 0x27] @ x @ [CHR 0x27]) xs) @ '']''"

text \<open>The text main.py has written to standard output.\<close>

fun stdout_of :: "event list \<Rightarrow> string" where
  "stdout_of [] = []"
| "stdout_of (Stdout s # evs) = s @ stdout_of evs"
| "stdout_of (ev # evs) = stdout_of evs"

subsection \<open>The handlers\<close>

text \<open>
  A handler reads \<open>self.args\<close> and \<open>self.runtime\<close>; here it takes the collaborators
  \<open>K\<close> and the parsed arguments. Python evaluates the arguments of a call before the
  call, left to right, and the model keeps that order.
\<close>

definition do_sync :: "'s collab \<Rightarrow> args \<Rightarrow> (unit, 's) prog" where
  "do_sync K args = ext_call (ApplyImports None) (apply_imports K None)"

definition do_build :: "'s collab \<Rightarrow> args \<Rightarrow> (unit, 's) prog" where
  "do_build K args =
     thenP (subscript args ''<rules>'') (\<lambda>names.
     thenP (ext_call (GetRules names) (get_rules K names)) (\<lambda>rules.
     ext_call (DoBuildRules rules) (local_module_do_build K rules)))"

text \<open>\<open>for module in modules: module.reup(self.runtime)\<close>.\<close>

fun reup_loop :: "'s collab \<Rightarrow> pmodule list \<Rightarrow> (unit, 's) prog" where
  "reup_loop K [] w = (Inr (), w)"
| "reup_loop K (m # ms) w =
     (case ext_call (Reup m) (reup K m) w of
        (Inl e, w') \<Rightarrow> (Inl e, w')
      | (Inr u, w') \<Rightarrow> reup_loop K ms w')"

definition do_reup :: "'s collab \<Rightarrow> args \<Rightarrow> (unit, 's) prog" where
  "do_reup K args =
     thenP (subscript args ''<modules>'') (\<lambda>given.
     thenP (if \<not> truthy given
            then ext_call GetAllModules (get_all_modules K)
            else thenP (subscript args ''<modules>'') (\<lambda>names.
                 ext_call (GetModules names) (get_modules K names)))
       (\<lambda>modules. reup_loop K modules))"

text \<open>
  Modelled from the spec: \<open>runtime.get_override(name)\<close>, defined in runtime.py, gives
  the path the Override Table holds for the name (\<open>None\<close> when it holds none).
\<close>

definition get_override :: "'s world \<Rightarrow> string \<Rightarrow> string option" where
  "get_override w name = map_of (overrides w) name"

text \<open>\<open>'{}: {}'.format(module, path)\<close> on a string and a string or \<open>None\<close>.\<close>

definition format_override :: "string \<Rightarrow> string option \<Rightarrow> string" where
  "format_override name path =
     name @ '': '' @ (case path of None \<Rightarrow> ''None'' | Some p \<Rightarrow> p)"

fun override_loop :: "string list \<Rightarrow> (unit, 's) prog" where
  "override_loop [] w = (Inr (), w)"
| "override_loop (name # rest) w =
     (case py_print (format_override name (get_override w name)) w of
        (Inl e, w') \<Rightarrow> (Inl e, w')
      | (Inr u, w') \<Rightarrow> override_loop rest w')"

text \<open>\<open>sorted(self.runtime.overrides)\<close> is the sorted list of the table's keys.\<close>

definition do_override :: "'s collab \<Rightarrow> args \<Rightarrow> (unit, 's) prog" where
  "do_override K args = (\<lambda>w. override_loop (sort (map fst (overrides w))) w)"

text \<open>\<open>d[k] = v\<close> on the list of items: overwrite in place, or append.\<close>

fun dict_set :: "string \<Rightarrow> string \<Rightarrow> (string \<times> string) list \<Rightarrow> (string \<times> string) list" where
  "dict_set k v [] = [(k, v)]"
| "dict_set k v ((k', v') # rest) =
     (if k' = k then (k, v) # rest else (k', v') # dict_set k v rest)"

text \<open>
  Modelled from the spec: \<open>runtime.set_override(name, path)\<close>, defined in runtime.py,
  inserts or overwrites the entry of the Override Table under the name. The table
  holds strings; a name or path that is not a string is rejected with \<open>TypeError\<close>
  here (the usage text gives both a string whenever \<open>add\<close> is matched).
\<close>

definition set_override :: "pyval \<Rightarrow> pyval \<Rightarrow> (unit, 's) prog" where
  "set_override name path =
     (case (name, path) of
        (PyStr n, PyStr p) \<Rightarrow> (\<lambda>w. (Inr (), w\<lparr>overrides := dict_set n p (overrides w)\<rparr>))
      | _ \<Rightarrow> raiseP (OtherError ''TypeError''))"

definition do_override_add :: "'s collab \<Rightarrow> args \<Rightarrow> (unit, 's) prog" where
  "do_override_add K args =
     thenP (subscript args ''<module>'') (\<lambda>name.
     thenP (subscript args ''<path>'') (\<lambda>path.
     set_override name path))"

text \<open>
  Modelled from the spec: the Override Table is a mapping, and deleting a key it does
  not hold fails. \<open>del d[key]\<close> on a mapping with string keys: a key the mapping
  does not hold raises \<open>KeyError(key)\<close>; a list is unhashable and raises
  \<open>TypeError\<close>.
\<close>

definition dict_del :: "pyval \<Rightarrow> (unit, 's) prog" where
  "dict_del key =
     (case key of
        PyStr k \<Rightarrow>
          (\<lambda>w. if k \<in> set (map fst (overrides w))
                then (Inr (), w\<lparr>overrides := filter (\<lambda>(k', v). k' \<noteq> k) (overrides w)\<rparr>)
                else (Inl (KeyError key), w))
      | PyList xs \<Rightarrow> raiseP (OtherError ''TypeError'')
      | _ \<Rightarrow> raiseP (KeyError key))"

definition do_override_delete :: "'s collab \<Rightarrow> args \<Rightarrow> (unit, 's) prog" where
  "do_override_delete K args =
     thenP (subscript args ''<module>'') (\<lambda>key. dict_del key)"

definition do_copy :: "'s collab \<Rightarrow> args \<Rightarrow> (unit, 's) prog" where
  "do_copy K args =
     thenP (subscript args ''<dest>'') (\<lambda>given.
     thenP (if \<not> truthy given
            then thenP (ext_call (Mkdtemp ''peru_copy_'') (mkdtemp K ''peru_copy_''))
                   (\<lambda>p. returnP (PyStr p))
            else subscript args ''<dest>'') (\<lambda>dest.
     thenP (subscript args ''<target>'') (\<lambda>target.
     thenP (ext_call (GetTree target) (get_tree K target)) (\<lambda>tree.
     thenP (\<lambda>w. (Inr (force K (ext w)), w)) (\<lambda>frc.
     thenP (ext_call (ExportTree tree dest frc) (export_tree K tree dest frc)) (\<lambda>_.
     thenP (subscript args ''<dest>'') (\<lambda>given'.
     if \<not> truthy given' then py_print (pystr dest) else returnP ())))))))"

text \<open>The second argument of \<open>apply_imports\<close> is the empty dict \<open>{}\<close>.\<close>

definition do_clean :: "'s collab \<Rightarrow> args \<Rightarrow> (unit, 's) prog" where
  "do_clean K args = ext_call (ApplyImports (Some [])) (apply_imports K (Some []))"

text \<open>\<open>matching_command(self)\<close>: the registered function, called on the Main object.\<close>

fun call_handler :: "handler \<Rightarrow> 's collab \<Rightarrow> args \<Rightarrow> (unit, 's) prog" where
  "call_handler DoSync = do_sync"
| "call_handler DoBuild = do_build"
| "call_handler DoReup = do_reup"
| "call_handler DoOverride = do_override"
| "call_handler DoOverrideAdd = do_override_add"
| "call_handler DoOverrideDelete = do_override_delete"
| "call_handler DoCopy = do_copy"
| "call_handler DoClean = do_clean"

subsection \<open>Main.run, print_red and main\<close>

text \<open>
  \<open>if matching_command:\<close> tests a function object or \<open>None\<close>; a function is truthy.
\<close>

definition run :: "'s collab \<Rightarrow> string list \<Rightarrow> env \<Rightarrow> (unit, 's) prog" where
  "run K argv env =
     thenP (\<lambda>w. (docopt K argv, w)) (\<lambda>args.
       case find_matching_command commands_map args of
         Inl e \<Rightarrow> raiseP e
       | Inr (Some matching_command) \<Rightarrow>
           thenP (ext_call RuntimeNew (new_Runtime K args env)) (\<lambda>_.
           call_handler matching_command K args)
       | Inr None \<Rightarrow>
           thenP (subscript args ''--version'') (\<lambda>v.
           if truthy v then py_print version else py_print_noend doc))"

definition print_red :: "string \<Rightarrow> (unit, 's) prog" where
  "print_red s =
     thenP (\<lambda>w. if isatty w then stdout_write ([CHR 0x1B] @ ''[31m'') w else (Inr (), w)) (\<lambda>_.
     thenP (py_print s) (\<lambda>_.
     (\<lambda>w. if isatty w then stdout_write ([CHR 0x1B] @ ''[39m'') w else (Inr (), w))))"

text \<open>
  How a call of \<open>main\<close> ends: it returns, it leaves through \<open>sys.exit(code)\<close>, or an
  exception it does not catch propagates to its caller.
\<close>

datatype outcome = Returned | SysExit int | Raised error

text \<open>\<open>if argv is None: argv = sys.argv[1:]\<close> and
  \<open>if env is None: env = os.environ.copy()\<close>.\<close>

definition given_argv :: "'s world \<Rightarrow> string list option \<Rightarrow> string list" where
  "given_argv w argv = (case argv of None \<Rightarrow> drop 1 (sys_argv w) | Some a \<Rightarrow> a)"

definition given_env :: "'s world \<Rightarrow> env option \<Rightarrow> env" where
  "given_env w env = (case env of None \<Rightarrow> os_environ w | Some e \<Rightarrow> e)"

definition main :: "'s collab \<Rightarrow> string list option \<Rightarrow> env option \<Rightarrow> 's world \<Rightarrow> outcome \<times> 's world" where
  "main K argv env w =
     (case run K (given_argv w argv) (given_env w env) w of
        (Inr u, w') \<Rightarrow> (Returned, w')
      | (Inl (PrintableError msg), w') \<Rightarrow>
          (if msg \<noteq> []
           then (case print_red msg w' of
                   (Inl e, w'') \<Rightarrow> (Raised e, w'')
                 | (Inr u, w'') \<Rightarrow> (SysExit 1, w''))
           else (SysExit 1, w'))
      | (Inl e, w') \<Rightarrow> (Raised e, w'))"

subsection \<open>What the specification says of reup over several modules\<close>

text \<open>
  The specification's words for reup: the modules are processed in order, one after the
  other, and the iteration stops at the first failure, leaving later modules
  unprocessed. \<open>reup_until_first_failure\<close> is that description, written on the
  collaborator state alone and without reference to \<open>do_reup\<close>: it gives the modules
  whose reup was run, how the run ended, and the state it left. The handler of the
  source is compared with it below.
\<close>

fun reup_until_first_failure ::
  "'s collab \<Rightarrow> pmodule list \<Rightarrow> 's \<Rightarrow> pmodule list \<times> (error + unit) \<times> 's" where
  "reup_until_first_failure K [] s = ([], Inr (), s)"
| "reup_until_first_failure K (m # ms) s =
     (case reup K m s of
        (Inl e, s') \<Rightarrow> ([m], Inl e, s')
      | (Inr u, s') \<Rightarrow>
          (case reup_until_first_failure K ms s' of
             (reupped, res, s'') \<Rightarrow> (m # reupped, res, s'')))"

subsection \<open>Sample invocations\<close>

text \<open>
  What docopt returns when no command word, switch or positional is given a value:
  every name of the usage text, with \<open>False\<close>, \<open>None\<close> or the empty list.
\<close>

definition docopt_defaults :: "(string \<times> pyval) list" where
  "docopt_defaults =
     [(''sync'', PyBool False), (''build'', PyBool False), (''reup'', PyBool False),
      (''override'', PyBool False), (''list'', PyBool False), (''add'', PyBool False),
      (''delete'', PyBool False), (''copy'', PyBool False), (''clean'', PyBool False),
      (''help'', PyBool False), (''--help'', PyBool False), (''--version'', PyBool False),
      (''--force'', PyBool False), (''--quiet'', PyBool False), (''--verbose'', PyBool False),
      (''<rules>'', PyList []), (''<modules>'', PyList []), (''<module>'', PyNone),
      (''<path>'', PyNone), (''<target>'', PyNone), (''<dest>'', PyNone)]"

definition parsed :: "(string \<times> pyval) list \<Rightarrow> args" where
  "parsed given = map_of (given @ docopt_defaults)"

text \<open>\<open>peru override add foo /bar\<close>, \<open>peru override delete foo\<close>, \<open>peru --version\<close>,
  \<open>peru help\<close>, \<open>peru reup\<close>, \<open>peru reup c a\<close>, \<open>peru copy lib\<close> and
  \<open>peru copy lib out\<close>.\<close>

definition args_override_add :: args where
  "args_override_add =
     parsed [(''override'', PyBool True), (''add'', PyBool True),
             (''<module>'', PyStr ''foo''), (''<path>'', PyStr ''/bar'')]"

definition args_override_delete :: args where
  "args_override_delete =
     parsed [(''override'', PyBool True), (''delete'', PyBool True),
             (''<module>'', PyStr ''foo'')]"

definition args_version :: args where
  "args_version = parsed [(''--version'', PyBool True)]"

definition args_help :: args where
  "args_help = parsed [(''help'', PyBool True)]"

definition args_reup_all :: args where
  "args_reup_all = parsed [(''reup'', PyBool True)]"

definition args_reup_named :: args where
  "args_reup_named = parsed [(''reup'', PyBool True), (''<modules>'', PyList [''c'', ''a''])]"



text \<open>\<open>peru copy broken\<close>, whose tree the sample cache below fails to export.\<close>

definition args_copy_broken :: args where
  "args_copy_broken = parsed [(''copy'', PyBool True), (''<target>'', PyStr ''broken'')]"

text \<open>
  Sample collaborators on a state that is the list of the paths that exist: every
  operation succeeds, except that reup of the module \<open>bad\<close> raises, and the tree
  \<open>broken\<close> fails to export. \<open>mkdtemp\<close> makes a name longer than every existing one.
\<close>

definition fresh_name :: "string \<Rightarrow> string list \<Rightarrow> string" where
  "fresh_name prefix existing =
     ''/tmp/'' @ prefix @ replicate (Suc (foldr max (map length existing) 0)) (CHR ''x'')"

definition names_of :: "pyval \<Rightarrow> string list" where
  "names_of v = (case v of PyList xs \<Rightarrow> xs | _ \<Rightarrow> [])"

definition sample :: "args \<Rightarrow> (string list) collab" where
  "sample a =
     \<lparr> docopt = (\<lambda>argv. Inr a),
       new_Runtime = (\<lambda>args env s. (Inr (), s)),
       apply_imports = (\<lambda>imports s. (Inr (), s)),
       get_rules = (\<lambda>v s. (Inr (names_of v), s)),
       local_module_do_build = (\<lambda>rules s. (Inr (), s)),
       get_all_modules = (\<lambda>s. (Inr [''a'', ''bad'', ''c''], s)),
       get_modules = (\<lambda>v s. (Inr (names_of v), s)),
       reup = (\<lambda>m s. if m = ''bad'' then (Inl (PrintableError ''no remote''), s) else (Inr (), s)),
       mkdtemp = (\<lambda>prefix s. (Inr (fresh_name prefix s), fresh_name prefix s # s)),
       get_tree = (\<lambda>v s. (Inr (pystr v), s)),
       export_tree = (\<lambda>tree dest frc s.
          if tree = ''broken'' then (Inl (PrintableError ''export failed''), s) else (Inr (), s)),
       force = (\<lambda>s. False),
       path_exists = (\<lambda>p s. p \<in> set s) \<rparr>"

definition world0 :: "(string list) world" where
  "world0 =
     \<lparr> events = [],
       overrides = [(''zlib'', ''/src/zlib''), (''curl'', ''../curl'')],
       isatty = False,
       sys_argv = [''peru''],
       os_environ = [],
       ext = [''/tmp'', ''out''] \<rparr>"

section \<open>Properties of the dispatcher\<close>

lemmas sample_defs = parsed_def docopt_defaults_def commands_map_def has_keys_def present_def

lemmas prog_defs = thenP_def returnP_def raiseP_def emit_def ext_call_def subscript_def
  py_print_def py_print_noend_def stdout_write_def

lemma all_truthy_present:
  "list_all (\<lambda>cmd. args cmd \<noteq> None) cmds \<Longrightarrow> all_truthy args cmds = Inr (present args cmds)"
  by (induction cmds) (auto simp: present_def)

lemma matches_filter:
  "has_keys args reg \<Longrightarrow> matches reg args = Inr (filter (\<lambda>(cmds, f). present args cmds) reg)"
  by (induction reg) (auto simp: has_keys_def all_truthy_present)

lemma present_iff:
  "present args cmds \<longleftrightarrow> (\<forall>cmd\<in>set cmds. \<exists>v. args cmd = Some v \<and> truthy v)"
  by (auto simp: present_def list_all_iff split: option.splits)

lemma longest_mem: "longest m ms \<in> set (m # ms)"
  by (induction m ms rule: longest.induct) auto

lemma longest_max: "x \<in> set (m # ms) \<Longrightarrow> length (fst x) \<le> length (fst (longest m ms))"
  by (induction m ms arbitrary: x rule: longest.induct) (fastforce split: if_splits)+

lemma find_matching_command_filter:
  assumes "has_keys args reg"
  shows "find_matching_command reg args =
           (case filter (\<lambda>(cmds, f). present args cmds) reg of
              [] \<Rightarrow> Inr None
            | m # ms \<Rightarrow> Inr (Some (snd (longest m ms))))"
  using assms by (simp add: find_matching_command_def matches_filter)

lemma find_matching_command_selects:
  assumes keys: "has_keys args reg"
    and B: "(B, fB) \<in> set reg" and pB: "present args B"
  shows "\<exists>C f. (C, f) \<in> set reg \<and> present args C \<and> length B \<le> length C
           \<and> (\<forall>(C', f') \<in> set reg. present args C' \<longrightarrow> length C' \<le> length C)
           \<and> find_matching_command reg args = Inr (Some f)"
proof -
  let ?ms = "filter (\<lambda>(cmds, f). present args cmds) reg"
  from B pB have Bin: "(B, fB) \<in> set ?ms" by simp
  then obtain m ms where ms: "?ms = m # ms" by (cases ?ms) auto
  obtain C f where Cf: "longest m ms = (C, f)" by (cases "longest m ms")
  have "(C, f) \<in> set ?ms" using longest_mem [of m ms] Cf ms by simp
  then have "(C, f) \<in> set reg" "present args C" by auto
  moreover have mx: "\<And>x. x \<in> set ?ms \<Longrightarrow> length (fst x) \<le> length C"
    using longest_max [of _ m ms] Cf ms by simp
  from mx [OF Bin] have "length B \<le> length C" by simp
  moreover have "\<forall>(C', f') \<in> set reg. present args C' \<longrightarrow> length C' \<le> length C"
    using mx by fastforce
  moreover have "find_matching_command reg args = Inr (Some f)"
    using find_matching_command_filter [OF keys] ms Cf by simp
  ultimately show ?thesis by blast
qed

lemma shorter_of_subset:
  assumes "set A \<subset> set B" "distinct A"
  shows "length A < length B"
proof -
  have "length A = card (set A)" using assms(2) by (simp add: distinct_card)
  also have "\<dots> < card (set B)" using assms(1) by (simp add: psubset_card_mono)
  also have "\<dots> \<le> length B" by (rule card_length)
  finally show ?thesis .
qed

lemma registered_path_shape:
  assumes "(C, f) \<in> set commands_map"
  shows "1 \<le> length C \<and> distinct C"
  using assms by (simp add: commands_map_def; elim disjE conjE; simp)

lemma two_word_paths:
  assumes "(C, f) \<in> set commands_map" and "2 \<le> length C"
  shows "(C = [''override'', ''add''] \<and> f = DoOverrideAdd)
       \<or> (C = [''override'', ''delete''] \<and> f = DoOverrideDelete)"
  using assms by (simp add: commands_map_def; elim disjE conjE; simp)

lemma handler_of_one_path:
  assumes "(A, f) \<in> set commands_map" and "(B, f) \<in> set commands_map"
  shows "length A = length B"
  using assms by (simp add: commands_map_def; elim disjE conjE; simp)

text \<open>
  C1. Let A and B be registered paths, the words of A a strict subset of the words of
  B, and let every word of B be truthy in the Argument Model. docopt returns a dict
  that holds every registered word and, \<open>add\<close> and \<open>delete\<close> being alternatives
  of the usage text, never has both of them true. On every such dict
  \<open>find_matching_command\<close> returns the handler registered for B, and that handler
  is not the one registered for A.
\<close>

theorem superset_path_wins:
  assumes "has_keys args commands_map"
    and "(A, fA) \<in> set commands_map" and "(B, fB) \<in> set commands_map"
    and "set A \<subset> set B"
    and "present args B"
    and "\<not> (present args [''add''] \<and> present args [''delete''])"
  shows "find_matching_command commands_map args = Inr (Some fB) \<and> fB \<noteq> fA"
proof -
  from registered_path_shape [OF assms(2)] have A: "1 \<le> length A" "distinct A"
    by simp_all
  from shorter_of_subset [OF assms(4) A(2)] have lt: "length A < length B" .
  with A(1) have B2: "2 \<le> length B" by simp
  from two_word_paths [OF assms(3) B2]
  have Bc: "(B = [''override'', ''add''] \<and> fB = DoOverrideAdd)
       \<or> (B = [''override'', ''delete''] \<and> fB = DoOverrideDelete)" .
  from find_matching_command_selects [OF assms(1,3,5)]
  obtain C f where C: "(C, f) \<in> set commands_map" and pC: "present args C"
    and le: "length B \<le> length C"
    and sel: "find_matching_command commands_map args = Inr (Some f)"
    by (elim exE conjE)
  from B2 le have "2 \<le> length C" by simp
  from two_word_paths [OF C this]
  have Cc: "(C = [''override'', ''add''] \<and> f = DoOverrideAdd)
       \<or> (C = [''override'', ''delete''] \<and> f = DoOverrideDelete)" .
  have "f = fB"
    using Bc
  proof (elim disjE conjE)
    assume b: "B = [''override'', ''add'']" "fB = DoOverrideAdd"
    show ?thesis
      using Cc
    proof (elim disjE conjE)
      assume "C = [''override'', ''add'']" "f = DoOverrideAdd"
      with b show ?thesis by simp
    next
      assume c: "C = [''override'', ''delete'']" "f = DoOverrideDelete"
      from assms(5) b have "present args [''add'']" by (simp add: present_def)
      moreover from pC c have "present args [''delete'']" by (simp add: present_def)
      ultimately show ?thesis using assms(6) by simp
    qed
  next
    assume b: "B = [''override'', ''delete'']" "fB = DoOverrideDelete"
    show ?thesis
      using Cc
    proof (elim disjE conjE)
      assume c: "C = [''override'', ''add'']" "f = DoOverrideAdd"
      from assms(5) b have "present args [''delete'']" by (simp add: present_def)
      moreover from pC c have "present args [''add'']" by (simp add: present_def)
      ultimately show ?thesis using assms(6) by simp
    next
      assume "C = [''override'', ''delete'']" "f = DoOverrideDelete"
      with b show ?thesis by simp
    qed
  qed
  with sel have r: "find_matching_command commands_map args = Inr (Some fB)" by simp
  have "fB \<noteq> fA"
  proof
    assume "fB = fA"
    with assms(3) have "(B, fA) \<in> set commands_map" by simp
    from handler_of_one_path [OF assms(2) this] lt show False by simp
  qed
  with r show ?thesis by simp
qed

theorem superset_path_wins_witness:
  "has_keys args_override_add commands_map
   \<and> set [''override''] \<subset> set [''override'', ''add'']
   \<and> present args_override_add [''override'', ''add'']
   \<and> find_matching_command commands_map args_override_add = Inr (Some DoOverrideAdd)
   \<and> has_keys args_override_delete commands_map
   \<and> set [''override''] \<subset> set [''override'', ''delete'']
   \<and> present args_override_delete [''override'', ''delete'']
   \<and> find_matching_command commands_map args_override_delete = Inr (Some DoOverrideDelete)"
proof -
  have a: "([''override''], DoOverride) \<in> set commands_map"
    by (simp add: commands_map_def)
  have k1: "has_keys args_override_add commands_map"
    by (simp add: args_override_add_def sample_defs)
  have b1: "([''override'', ''add''], DoOverrideAdd) \<in> set commands_map"
    by (simp add: commands_map_def)
  have s1: "set [''override''] \<subset> set [''override'', ''add'']" by auto
  have p1: "present args_override_add [''override'', ''add'']"
    by (simp add: args_override_add_def sample_defs)
  have x1: "\<not> (present args_override_add [''add''] \<and> present args_override_add [''delete''])"
    by (simp add: args_override_add_def sample_defs)
  have k2: "has_keys args_override_delete commands_map"
    by (simp add: args_override_delete_def sample_defs)
  have b2: "([''override'', ''delete''], DoOverrideDelete) \<in> set commands_map"
    by (simp add: commands_map_def)
  have s2: "set [''override''] \<subset> set [''override'', ''delete'']" by auto
  have p2: "present args_override_delete [''override'', ''delete'']"
    by (simp add: args_override_delete_def sample_defs)
  have x2: "\<not> (present args_override_delete [''add''] \<and> present args_override_delete [''delete''])"
    by (simp add: args_override_delete_def sample_defs)
  have r1: "find_matching_command commands_map args_override_add = Inr (Some DoOverrideAdd)"
    using superset_path_wins [where args = args_override_add and A = "[''override'']"
        and fA = DoOverride and B = "[''override'', ''add'']" and fB = DoOverrideAdd,
        OF k1 a b1 s1 p1 x1]
    by (elim conjE)
  have r2: "find_matching_command commands_map args_override_delete = Inr (Some DoOverrideDelete)"
    using superset_path_wins [where args = args_override_delete and A = "[''override'']"
        and fA = DoOverride and B = "[''override'', ''delete'']" and fB = DoOverrideDelete,
        OF k2 a b2 s2 p2 x2]
    by (elim conjE)
  from k1 s1 p1 r1 k2 s2 p2 r2 show ?thesis by - (intro conjI; assumption)
qed

text \<open>
  C3. When the dict holds every command word of the registry, the candidates are
  exactly the registered items all of whose words map to a truthy value, in registry
  order; \<open>False\<close>, the empty string and the empty list are not truthy.
\<close>

theorem candidate_iff_all_truthy:
  assumes "has_keys args reg"
  shows "matches reg args =
           Inr (filter (\<lambda>(cmds, f). \<forall>cmd\<in>set cmds. \<exists>v. args cmd = Some v \<and> truthy v) reg)
         \<and> \<not> truthy (PyBool False) \<and> \<not> truthy (PyStr '''') \<and> \<not> truthy (PyList [])"
  using assms by (simp add: matches_filter present_iff)

theorem candidate_iff_all_truthy_witness:
  "has_keys args_override_add commands_map
   \<and> matches commands_map args_override_add =
       Inr [([''override''], DoOverride), ([''override'', ''add''], DoOverrideAdd)]"
proof -
  have k: "has_keys args_override_add commands_map"
    by (simp add: args_override_add_def sample_defs)
  from candidate_iff_all_truthy [OF k] k show ?thesis
    by (simp add: args_override_add_def sample_defs)
qed

section \<open>Properties of Main.run, main and the handlers\<close>

text \<open>
  C2. When docopt returns an Argument Model in which no registered path is present,
  \<open>find_matching_command\<close> returns \<open>None\<close>, and \<open>Main.run\<close> constructs no Runtime
  and writes exactly one thing: the version string and a newline if \<open>--version\<close> is
  truthy, the usage text otherwise.
\<close>

theorem no_match_prints_version_or_usage:
  assumes "docopt K argv = Inr args"
    and "has_keys args commands_map"
    and "list_all (\<lambda>(cmds, f). \<not> present args cmds) commands_map"
    and "args ''--version'' = Some v"
  shows "find_matching_command commands_map args = Inr None
       \<and> run K argv env w =
           (Inr (), w\<lparr>events := events w @ [Stdout (if truthy v then version @ newline else doc)]\<rparr>)
       \<and> RuntimeNew \<notin> set (drop (length (events w)) (events (snd (run K argv env w))))"
proof -
  have "filter (\<lambda>(cmds, f). present args cmds) commands_map = []"
    using assms(3) by (auto simp: filter_empty_conv list_all_iff)
  then have none: "find_matching_command commands_map args = Inr None"
    using find_matching_command_filter [OF assms(2)] by simp
  then have r: "run K argv env w =
      (Inr (), w\<lparr>events := events w @ [Stdout (if truthy v then version @ newline else doc)]\<rparr>)"
    using assms(1,4) by (simp add: run_def prog_defs)
  show ?thesis using none r by simp
qed

theorem no_match_prints_version_or_usage_witness:
  "run (sample args_version) [''--version''] [] world0 =
     (Inr (), world0\<lparr>events := [Stdout (version @ newline)]\<rparr>)
   \<and> run (sample args_help) [''help''] [] world0 =
     (Inr (), world0\<lparr>events := [Stdout doc]\<rparr>)"
proof -
  have d1: "docopt (sample args_version) [''--version''] = Inr args_version"
    by (simp add: sample_def)
  have k1: "has_keys args_version commands_map"
    by (simp add: args_version_def sample_defs)
  have n1: "list_all (\<lambda>(cmds, f). \<not> present args_version cmds) commands_map"
    by (simp add: args_version_def sample_defs)
  have v1: "args_version ''--version'' = Some (PyBool True)"
    by (simp add: args_version_def sample_defs)
  have d2: "docopt (sample args_help) [''help''] = Inr args_help"
    by (simp add: sample_def)
  have k2: "has_keys args_help commands_map"
    by (simp add: args_help_def sample_defs)
  have n2: "list_all (\<lambda>(cmds, f). \<not> present args_help cmds) commands_map"
    by (simp add: args_help_def sample_defs)
  have v2: "args_help ''--version'' = Some (PyBool False)"
    by (simp add: args_help_def sample_defs)
  from no_match_prints_version_or_usage [OF d1 k1 n1 v1, of "[]" world0]
       no_match_prints_version_or_usage [OF d2 k2 n2 v2, of "[]" world0]
  show ?thesis by (simp add: world0_def)
qed

text \<open>
  C8. \<open>do_sync\<close> and \<open>do_clean\<close> each make one call, to the same operation
  \<open>apply_imports\<close> of the local module, and their outcome is that call's outcome; sync
  passes no import set, clean passes the empty dict.
\<close>

theorem clean_and_sync_apply_imports:
  "do_sync K args w =
     (case apply_imports K None (ext w) of
        (r, s') \<Rightarrow> (r, w\<lparr>events := events w @ [ApplyImports None], ext := s'\<rparr>))
   \<and> do_clean K args w =
     (case apply_imports K (Some []) (ext w) of
        (r, s') \<Rightarrow> (r, w\<lparr>events := events w @ [ApplyImports (Some [])], ext := s'\<rparr>))"
  by (simp add: do_sync_def do_clean_def prog_defs split: prod.splits)

text \<open>
  C6. When \<open>Main.run\<close> raises \<open>PrintableError\<close>, \<open>main\<close> leaves through
  \<open>sys.exit(1)\<close>; a non-empty message is printed, between the two colour escapes
  exactly when standard output is a terminal; an empty message prints nothing. Any
  other exception propagates with nothing printed.
\<close>

theorem printable_error_exits_1:
  assumes "run K (given_argv w argv) (given_env w env) w = (Inl e, w1)"
  shows "(\<forall>msg. e = PrintableError msg \<longrightarrow>
            main K argv env w =
              (SysExit 1,
               w1\<lparr>events := events w1 @
                   (if msg = [] then []
                    else (if isatty w1 then [Stdout ([CHR 0x1B] @ ''[31m'')] else [])
                         @ [Stdout (msg @ newline)]
                         @ (if isatty w1 then [Stdout ([CHR 0x1B] @ ''[39m'')] else []))\<rparr>))
       \<and> ((\<forall>msg. e \<noteq> PrintableError msg) \<longrightarrow> main K argv env w = (Raised e, w1))"
  using assms by (cases e) (simp_all add: main_def print_red_def prog_defs)

theorem printable_error_exits_1_witness:
  "run (sample args_reup_all) (given_argv (world0\<lparr>isatty := True\<rparr>) None)
       (given_env (world0\<lparr>isatty := True\<rparr>) None) (world0\<lparr>isatty := True\<rparr>) =
     (Inl (PrintableError ''no remote''),
      world0\<lparr>isatty := True, events := [RuntimeNew, GetAllModules, Reup ''a'', Reup ''bad'']\<rparr>)
   \<and> main (sample args_reup_all) None None (world0\<lparr>isatty := True\<rparr>) =
     (SysExit 1,
      world0\<lparr>isatty := True,
             events := [RuntimeNew, GetAllModules, Reup ''a'', Reup ''bad'',
                        Stdout ([CHR 0x1B] @ ''[31m''), Stdout (''no remote'' @ newline),
                        Stdout ([CHR 0x1B] @ ''[39m'')]\<rparr>)"
proof -
  have r: "run (sample args_reup_all) (given_argv (world0\<lparr>isatty := True\<rparr>) None)
       (given_env (world0\<lparr>isatty := True\<rparr>) None) (world0\<lparr>isatty := True\<rparr>) =
     (Inl (PrintableError ''no remote''),
      world0\<lparr>isatty := True, events := [RuntimeNew, GetAllModules, Reup ''a'', Reup ''bad'']\<rparr>)"
    by (simp add: run_def find_matching_command_def do_reup_def args_reup_all_def
        sample_defs sample_def world0_def prog_defs given_argv_def given_env_def)
  from printable_error_exits_1 [OF r] r show ?thesis
    by (simp add: world0_def)
qed

lemma override_loop_events:
  "override_loop names w =
     (Inr (), w\<lparr>events := events w @
        map (\<lambda>name. Stdout (format_override name (map_of (overrides w) name) @ newline)) names\<rparr>)"
  by (induction names arbitrary: w) (simp_all add: py_print_def emit_def get_override_def)

lemma items_of_sorted_keys:
  assumes "distinct (map fst kvs)"
  shows "set (map (\<lambda>k. (k, the (map_of kvs k))) (sort (map fst kvs))) = set kvs"
proof -
  have "\<And>k v. (k, v) \<in> set kvs \<Longrightarrow> map_of kvs k = Some v"
    using assms by simp
  then show ?thesis by (force simp: image_iff)
qed

text \<open>
  C9. For an Override Table with unique keys, \<open>do_override\<close> succeeds and writes, for
  the entries of the table taken once each in ascending order of module name, the line
  \<open>name: path\<close> and a newline; it does nothing else.
\<close>

theorem override_lists_sorted:
  assumes "distinct (map fst (overrides w))"
  shows "\<exists>entries. set entries = set (overrides w) \<and> length entries = length (overrides w)
           \<and> sorted (map fst entries) \<and> distinct (map fst entries)
           \<and> do_override K args w =
               (Inr (), w\<lparr>events := events w @
                  map (\<lambda>(name, path). Stdout (name @ '': '' @ path @ newline)) entries\<rparr>)"
proof -
  let ?kvs = "overrides w"
  let ?entries = "map (\<lambda>k. (k, the (map_of ?kvs k))) (sort (map fst ?kvs))"
  have keys: "map fst ?entries = sort (map fst ?kvs)"
    by (simp add: comp_def)
  have "\<And>k. k \<in> set (map fst ?kvs) \<Longrightarrow> \<exists>v. map_of ?kvs k = Some v"
    by (metis map_of_eq_None_iff not_None_eq set_map)
  then have "map (\<lambda>(name, path). Stdout (name @ '': '' @ path @ newline)) ?entries =
        map (\<lambda>name. Stdout (format_override name (map_of ?kvs name) @ newline)) (sort (map fst ?kvs))"
    by (fastforce simp: format_override_def)
  then have "do_override K args w =
      (Inr (), w\<lparr>events := events w @
         map (\<lambda>(name, path). Stdout (name @ '': '' @ path @ newline)) ?entries\<rparr>)"
    by (simp only: do_override_def override_loop_events)
  moreover have "set ?entries = set ?kvs"
    by (rule items_of_sorted_keys [OF assms])
  moreover have "length ?entries = length ?kvs" by simp
  moreover have "sorted (map fst ?entries)" by (simp only: keys sorted_sort)
  moreover have "distinct (map fst ?entries)" using assms by (simp only: keys distinct_sort)
  ultimately show ?thesis by blast
qed

theorem override_lists_sorted_witness:
  "distinct (map fst (overrides world0))
   \<and> (\<exists>entries. set entries = set (overrides world0) \<and> sorted (map fst entries)
         \<and> do_override (sample args_help) args_help world0 =
             (Inr (), world0\<lparr>events := events world0 @
                map (\<lambda>(name, path). Stdout (name @ '': '' @ path @ newline)) entries\<rparr>))
   \<and> do_override (sample args_help) args_help world0 =
       (Inr (), world0\<lparr>events := [Stdout (''curl: ../curl'' @ newline),
                                   Stdout (''zlib: /src/zlib'' @ newline)]\<rparr>)"
proof -
  have d: "distinct (map fst (overrides world0))" by (simp add: world0_def)
  have e: "do_override (sample args_help) args_help world0 =
       (Inr (), world0\<lparr>events := [Stdout (''curl: ../curl'' @ newline),
                                   Stdout (''zlib: /src/zlib'' @ newline)]\<rparr>)"
    by (simp add: do_override_def world0_def py_print_def emit_def get_override_def
        format_override_def)
  from override_lists_sorted [OF d, of "sample args_help" args_help] d e
  show ?thesis by blast
qed

text \<open>
  C5. When \<open>override delete x\<close> is dispatched, the Runtime is constructed, and the
  Override Table has no key \<open>x\<close>, the handler raises \<open>KeyError\<close> and leaves the table
  as it was; \<open>main\<close> does not catch it: the call ends with that exception, not with a
  return and not with \<open>sys.exit\<close>, and nothing is printed.
\<close>

theorem override_delete_missing_key:
  assumes "docopt K (given_argv w argv) = Inr args"
    and "find_matching_command commands_map args = Inr (Some DoOverrideDelete)"
    and "new_Runtime K args (given_env w env) (ext w) = (Inr (), s1)"
    and "args ''<module>'' = Some (PyStr x)"
    and "x \<notin> fst ` set (overrides w)"
  shows "do_override_delete K args w = (Inl (KeyError (PyStr x)), w)
       \<and> main K argv env w =
           (Raised (KeyError (PyStr x)), w\<lparr>events := events w @ [RuntimeNew], ext := s1\<rparr>)"
  using assms by (simp add: main_def run_def do_override_delete_def dict_del_def prog_defs)

theorem override_delete_missing_key_witness:
  "find_matching_command commands_map args_override_delete = Inr (Some DoOverrideDelete)
   \<and> ''foo'' \<notin> fst ` set (overrides world0)
   \<and> main (sample args_override_delete) (Some [''override'', ''delete'', ''foo'']) None world0 =
       (Raised (KeyError (PyStr ''foo'')), world0\<lparr>events := [RuntimeNew]\<rparr>)"
proof -
  have d: "docopt (sample args_override_delete)
             (given_argv world0 (Some [''override'', ''delete'', ''foo''])) = Inr args_override_delete"
    by (simp add: sample_def)
  have f: "find_matching_command commands_map args_override_delete = Inr (Some DoOverrideDelete)"
    by (simp add: find_matching_command_def args_override_delete_def sample_defs)
  have r: "new_Runtime (sample args_override_delete) args_override_delete (given_env world0 None)
             (ext world0) = (Inr (), ext world0)"
    by (simp add: sample_def)
  have m: "args_override_delete ''<module>'' = Some (PyStr ''foo'')"
    by (simp add: args_override_delete_def sample_defs)
  have x: "''foo'' \<notin> fst ` set (overrides world0)" by (simp add: world0_def)
  from override_delete_missing_key [OF d f r m x] f x show ?thesis
    by (simp add: world0_def)
qed

lemma ext_call_run:
  "ext_call ev f w = (case f (ext w) of (r, s') \<Rightarrow> (r, w\<lparr>events := events w @ [ev], ext := s'\<rparr>))"
  by (simp add: ext_call_def thenP_def emit_def split: prod.splits)

lemma do_reup_run:
  assumes "args ''<modules>'' = Some given"
  shows "do_reup K args w =
     (case ext_call (if \<not> truthy given then GetAllModules else GetModules given)
             (if \<not> truthy given then get_all_modules K else get_modules K given) w of
        (Inl e, w1) \<Rightarrow> (Inl e, w1)
      | (Inr modules, w1) \<Rightarrow> reup_loop K modules w1)"
  using assms by (simp add: do_reup_def thenP_def subscript_def returnP_def)

lemma reup_loop_refines:
  "reup_until_first_failure K ms (ext w) = (reupped, res, s') \<Longrightarrow>
   reup_loop K ms w = (res, w\<lparr>events := events w @ map Reup reupped, ext := s'\<rparr>)"
proof (induction ms arbitrary: w reupped res s')
  case Nil
  then show ?case by simp
next
  case (Cons m ms)
  obtain r s2 where c: "reup K m (ext w) = (r, s2)" by (cases "reup K m (ext w)")
  let ?w2 = "w\<lparr>events := events w @ [Reup m], ext := s2\<rparr>"
  show ?case
  proof (cases r)
    case (Inl e)
    with c Cons.prems have "reupped = [m]" "res = Inl e" "s' = s2" by simp_all
    with c Inl show ?thesis by (simp add: ext_call_run)
  next
    case (Inr u)
    obtain reupped' res' s3 where t: "reup_until_first_failure K ms s2 = (reupped', res', s3)"
      by (cases "reup_until_first_failure K ms s2") auto
    with c Inr Cons.prems have eq: "reupped = m # reupped'" "res = res'" "s' = s3" by simp_all
    from t have "reup_until_first_failure K ms (ext ?w2) = (reupped', res', s3)" by simp
    from Cons.IH [OF this]
    have "reup_loop K ms ?w2 = (res', ?w2\<lparr>events := events ?w2 @ map Reup reupped', ext := s3\<rparr>)" .
    with c Inr eq show ?thesis by (simp add: ext_call_run)
  qed
qed

lemma first_failure_prefix:
  "reup_until_first_failure K ms s = (reupped, res, s') \<Longrightarrow>
   \<exists>rest. ms = reupped @ rest
     \<and> (case res of
           Inr u \<Rightarrow> rest = []
         | Inl e \<Rightarrow>
             (\<exists>ok m s0. reupped = ok @ [m]
                \<and> reup_until_first_failure K ok s = (ok, Inr (), s0)
                \<and> reup K m s0 = (Inl e, s')))"
proof (induction ms arbitrary: s reupped res s')
  case Nil
  then show ?case by auto
next
  case (Cons m ms)
  obtain r s2 where c: "reup K m s = (r, s2)" by (cases "reup K m s")
  show ?case
  proof (cases r)
    case (Inl e)
    with c Cons.prems have eq: "reupped = [m]" "res = Inl e" "s' = s2" by simp_all
    have "\<exists>ok m' s0. [m] = ok @ [m'] \<and> reup_until_first_failure K ok s = (ok, Inr (), s0)
            \<and> reup K m' s0 = (Inl e, s2)"
      using c Inl by (intro exI [of _ "[]"] exI [of _ m] exI [of _ s]) simp
    with eq show ?thesis by (intro exI [of _ ms]) simp
  next
    case (Inr u)
    obtain reupped' res' s3 where t: "reup_until_first_failure K ms s2 = (reupped', res', s3)"
      by (cases "reup_until_first_failure K ms s2") auto
    with c Inr Cons.prems have eq: "reupped = m # reupped'" "res = res'" "s' = s3" by simp_all
    from Cons.IH [OF t] obtain rest where
      r: "ms = reupped' @ rest"
      and cs: "case res' of
           Inr u \<Rightarrow> rest = []
         | Inl e \<Rightarrow>
             (\<exists>ok m s0. reupped' = ok @ [m]
                \<and> reup_until_first_failure K ok s2 = (ok, Inr (), s0)
                \<and> reup K m s0 = (Inl e, s3))"
      by (elim exE conjE)
    show ?thesis
    proof (cases res')
      case (Inr u')
      with cs r eq show ?thesis by (intro exI [of _ rest]) simp
    next
      case (Inl e)
      with cs obtain ok m' s0 where
        o: "reupped' = ok @ [m']" "reup_until_first_failure K ok s2 = (ok, Inr (), s0)"
           "reup K m' s0 = (Inl e, s3)"
        by auto
      have "reup_until_first_failure K (m # ok) s = (m # ok, Inr (), s0)"
        using c \<open>r = Inr u\<close> o(2) by simp
      with o have "\<exists>ok' m'' s0'. m # reupped' = ok' @ [m'']
            \<and> reup_until_first_failure K ok' s = (ok', Inr (), s0')
            \<and> reup K m'' s0' = (Inl e, s3)"
        by (intro exI [of _ "m # ok"] exI [of _ m'] exI [of _ s0]) simp
      with r eq Inl show ?thesis by (intro exI [of _ rest]) simp
    qed
  qed
qed

lemma first_failure_stops:
  "reup_until_first_failure K ok s = (ok, Inr (), s0) \<Longrightarrow> reup K m s0 = (Inl e, s1) \<Longrightarrow>
   reup_until_first_failure K (ok @ m # rest) s = (ok @ [m], Inl e, s1)"
proof (induction ok arbitrary: s)
  case Nil
  then show ?case by simp
next
  case (Cons a ok)
  obtain r s2 where c: "reup K a s = (r, s2)" by (cases "reup K a s")
  show ?case
  proof (cases r)
    case (Inl e')
    with c Cons.prems(1) show ?thesis by simp
  next
    case (Inr u)
    obtain reupped' res' s3 where t: "reup_until_first_failure K ok s2 = (reupped', res', s3)"
      by (cases "reup_until_first_failure K ok s2") auto
    with c Inr Cons.prems(1) have "reupped' = ok" "res' = Inr ()" "s3 = s0" by simp_all
    with t have "reup_until_first_failure K ok s2 = (ok, Inr (), s0)" by simp
    from Cons.IH [OF this Cons.prems(2)]
    have "reup_until_first_failure K (ok @ m # rest) s2 = (ok @ [m], Inl e, s1)" .
    with c Inr show ?thesis by simp
  qed
qed

text \<open>
  C4. \<open>do_reup\<close> asks the resolver once: for all modules when \<open><modules>\<close> is
  empty, for the modules of the given names, passed as given, otherwise. When the
  resolver returns a list, the handler does exactly what
  \<open>reup_until_first_failure\<close> describes on that list: it calls \<open>reup\<close> on the
  modules in the list's order, once each, up to and including the first whose reup
  raises; it ends with that exception, or with success when none raised; and it leaves
  the state the last call left. The modules reupped are a prefix of the list: the
  whole list on success, and on an exception the prefix that ends with the module that
  raised it, every module before it having been reupped without an exception.
  Conversely, whenever the modules before some module are reupped without an exception
  and that module's reup raises, the handler ends with that exception and has made no
  call for any later module.
\<close>

theorem reup_iterates_in_order:
  assumes "args ''<modules>'' = Some given"
    and "resolve = (if \<not> truthy given then get_all_modules K else get_modules K given)"
    and "call = (if \<not> truthy given then GetAllModules else GetModules given)"
    and "resolve (ext w) = (Inr modules, st)"
    and "reup_until_first_failure K modules st = (reupped, res, st')"
  shows "do_reup K args w = (res, w\<lparr>events := events w @ call # map Reup reupped, ext := st'\<rparr>)
       \<and> (\<exists>rest. modules = reupped @ rest
             \<and> (case res of
                   Inr u \<Rightarrow> rest = []
                 | Inl e \<Rightarrow>
                     (\<exists>ok m s0. reupped = ok @ [m]
                        \<and> reup_until_first_failure K ok st = (ok, Inr (), s0)
                        \<and> reup K m s0 = (Inl e, st'))))
       \<and> (\<forall>ok m rest e s0 s1.
             modules = ok @ m # rest
             \<and> reup_until_first_failure K ok st = (ok, Inr (), s0)
             \<and> reup K m s0 = (Inl e, s1)
             \<longrightarrow> do_reup K args w =
                   (Inl e, w\<lparr>events := events w @ call # map Reup (ok @ [m]), ext := s1\<rparr>))"
proof -
  let ?w0 = "w\<lparr>events := events w @ [call], ext := st\<rparr>"
  have call: "ext_call call resolve w = (Inr modules, ?w0)"
    using assms(4) by (simp add: ext_call_run)
  then have loop: "do_reup K args w = reup_loop K modules ?w0"
    using do_reup_run [where args = args and given = given and K = K and w = w] assms(1,2,3)
    by simp
  have run: "\<And>reupped' res' s'. reup_until_first_failure K modules st = (reupped', res', s') \<Longrightarrow>
      do_reup K args w = (res', w\<lparr>events := events w @ call # map Reup reupped', ext := s'\<rparr>)"
  proof -
    fix reupped' res' s'
    assume "reup_until_first_failure K modules st = (reupped', res', s')"
    then have "reup_until_first_failure K modules (ext ?w0) = (reupped', res', s')" by simp
    from reup_loop_refines [OF this] loop
    show "do_reup K args w = (res', w\<lparr>events := events w @ call # map Reup reupped', ext := s'\<rparr>)"
      by simp
  qed
  have 1: "do_reup K args w = (res, w\<lparr>events := events w @ call # map Reup reupped, ext := st'\<rparr>)"
    by (rule run [OF assms(5)])
  have 2: "\<exists>rest. modules = reupped @ rest
             \<and> (case res of
                   Inr u \<Rightarrow> rest = []
                 | Inl e \<Rightarrow>
                     (\<exists>ok m s0. reupped = ok @ [m]
                        \<and> reup_until_first_failure K ok st = (ok, Inr (), s0)
                        \<and> reup K m s0 = (Inl e, st')))"
    by (rule first_failure_prefix [OF assms(5)])
  have 3: "\<forall>ok m rest e s0 s1.
             modules = ok @ m # rest
             \<and> reup_until_first_failure K ok st = (ok, Inr (), s0)
             \<and> reup K m s0 = (Inl e, s1)
             \<longrightarrow> do_reup K args w =
                   (Inl e, w\<lparr>events := events w @ call # map Reup (ok @ [m]), ext := s1\<rparr>)"
  proof (intro allI impI, elim conjE)
    fix ok m rest e s0 s1
    assume m: "modules = ok @ m # rest"
      and ok: "reup_until_first_failure K ok st = (ok, Inr (), s0)"
      and raise: "reup K m s0 = (Inl e, s1)"
    from first_failure_stops [OF ok raise, of rest] m
    have "reup_until_first_failure K modules st = (ok @ [m], Inl e, s1)" by simp
    then show "do_reup K args w =
        (Inl e, w\<lparr>events := events w @ call # map Reup (ok @ [m]), ext := s1\<rparr>)"
      by (rule run)
  qed
  from 1 2 3 show ?thesis by - (intro conjI; assumption)
qed

theorem reup_iterates_in_order_witness:
  "reup_until_first_failure (sample args_reup_all) [''a'', ''bad'', ''c''] (ext world0) =
     ([''a'', ''bad''], Inl (PrintableError ''no remote''), ext world0)
   \<and> do_reup (sample args_reup_all) args_reup_all world0 =
     (Inl (PrintableError ''no remote''),
      world0\<lparr>events := [GetAllModules, Reup ''a'', Reup ''bad'']\<rparr>)
   \<and> reup_until_first_failure (sample args_reup_named) [''c'', ''a''] (ext world0) =
     ([''c'', ''a''], Inr (), ext world0)
   \<and> do_reup (sample args_reup_named) args_reup_named world0 =
     (Inr (), world0\<lparr>events := [GetModules (PyList [''c'', ''a'']), Reup ''c'', Reup ''a'']\<rparr>)"
proof -
  have a1: "args_reup_all ''<modules>'' = Some (PyList [])"
    by (simp add: args_reup_all_def sample_defs)
  have rs1: "get_all_modules (sample args_reup_all) =
      (if \<not> truthy (PyList []) then get_all_modules (sample args_reup_all)
       else get_modules (sample args_reup_all) (PyList []))"
    by simp
  have cl1: "GetAllModules = (if \<not> truthy (PyList []) then GetAllModules else GetModules (PyList []))"
    by simp
  have res1: "get_all_modules (sample args_reup_all) (ext world0) =
      (Inr [''a'', ''bad'', ''c''], ext world0)"
    by (simp add: sample_def)
  have sp1: "reup_until_first_failure (sample args_reup_all) [''a'', ''bad'', ''c''] (ext world0) =
     ([''a'', ''bad''], Inl (PrintableError ''no remote''), ext world0)"
    by (simp add: sample_def)
  have "do_reup (sample args_reup_all) args_reup_all world0 =
     (Inl (PrintableError ''no remote''),
      world0\<lparr>events := events world0 @ GetAllModules # map Reup [''a'', ''bad''],
             ext := ext world0\<rparr>)"
    using reup_iterates_in_order [where args = args_reup_all and given = "PyList []"
        and K = "sample args_reup_all" and resolve = "get_all_modules (sample args_reup_all)"
        and call = GetAllModules and w = world0 and modules = "[''a'', ''bad'', ''c'']"
        and st = "ext world0" and reupped = "[''a'', ''bad'']"
        and res = "Inl (PrintableError ''no remote'')" and st' = "ext world0",
        OF a1 rs1 cl1 res1 sp1]
    by (elim conjE)
  then have run1: "do_reup (sample args_reup_all) args_reup_all world0 =
     (Inl (PrintableError ''no remote''),
      world0\<lparr>events := [GetAllModules, Reup ''a'', Reup ''bad'']\<rparr>)"
    by (simp add: world0_def)
  have a2: "args_reup_named ''<modules>'' = Some (PyList [''c'', ''a''])"
    by (simp add: args_reup_named_def sample_defs)
  have rs2: "get_modules (sample args_reup_named) (PyList [''c'', ''a'']) =
      (if \<not> truthy (PyList [''c'', ''a'']) then get_all_modules (sample args_reup_named)
       else get_modules (sample args_reup_named) (PyList [''c'', ''a'']))"
    by simp
  have cl2: "GetModules (PyList [''c'', ''a'']) =
      (if \<not> truthy (PyList [''c'', ''a'']) then GetAllModules
       else GetModules (PyList [''c'', ''a'']))"
    by simp
  have res2: "get_modules (sample args_reup_named) (PyList [''c'', ''a'']) (ext world0) =
      (Inr [''c'', ''a''], ext world0)"
    by (simp add: sample_def names_of_def)
  have sp2: "reup_until_first_failure (sample args_reup_named) [''c'', ''a''] (ext world0) =
     ([''c'', ''a''], Inr (), ext world0)"
    by (simp add: sample_def)
  have "do_reup (sample args_reup_named) args_reup_named world0 =
     (Inr (),
      world0\<lparr>events := events world0 @ GetModules (PyList [''c'', ''a'']) # map Reup [''c'', ''a''],
             ext := ext world0\<rparr>)"
    using reup_iterates_in_order [where args = args_reup_named and given = "PyList [''c'', ''a'']"
        and K = "sample args_reup_named"
        and resolve = "get_modules (sample args_reup_named) (PyList [''c'', ''a''])"
        and call = "GetModules (PyList [''c'', ''a''])" and w = world0
        and modules = "[''c'', ''a'']"
        and st = "ext world0" and reupped = "[''c'', ''a'']"
        and res = "Inr ()" and st' = "ext world0",
        OF a2 rs2 cl2 res2 sp2]
    by (elim conjE)
  then have run2: "do_reup (sample args_reup_named) args_reup_named world0 =
     (Inr (), world0\<lparr>events := [GetModules (PyList [''c'', ''a'']), Reup ''c'', Reup ''a'']\<rparr>)"
    by (simp add: world0_def)
  from sp1 run1 sp2 run2 show ?thesis by - (intro conjI; assumption)
qed

lemma do_copy_tmp:
  assumes "args ''<dest>'' = Some given" and "\<not> truthy given"
  shows "do_copy K args w =
     (case mkdtemp K ''peru_copy_'' (ext w) of
        (Inl e, s1) \<Rightarrow> (Inl e, w\<lparr>events := events w @ [Mkdtemp ''peru_copy_''], ext := s1\<rparr>)
      | (Inr p, s1) \<Rightarrow>
          (case args ''<target>'' of
             None \<Rightarrow> (Inl (KeyError (PyStr ''<target>'')),
                       w\<lparr>events := events w @ [Mkdtemp ''peru_copy_''], ext := s1\<rparr>)
           | Some target \<Rightarrow>
               (case get_tree K target s1 of
                  (Inl e, s2) \<Rightarrow>
                    (Inl e, w\<lparr>events := events w @ [Mkdtemp ''peru_copy_'', GetTree target],
                              ext := s2\<rparr>)
                | (Inr tree, s2) \<Rightarrow>
                    (case export_tree K tree (PyStr p) (force K s2) s2 of
                       (Inl e, s3) \<Rightarrow>
                         (Inl e, w\<lparr>events := events w @
                                     [Mkdtemp ''peru_copy_'', GetTree target,
                                      ExportTree tree (PyStr p) (force K s2)],
                                   ext := s3\<rparr>)
                     | (Inr u, s3) \<Rightarrow>
                         (Inr (), w\<lparr>events := events w @
                                     [Mkdtemp ''peru_copy_'', GetTree target,
                                      ExportTree tree (PyStr p) (force K s2),
                                      Stdout (p @ newline)],
                                   ext := s3\<rparr>)))))"
proof -
  note defs = do_copy_def thenP_def subscript_def returnP_def raiseP_def ext_call_run
    py_print_def emit_def
  obtain r1 s1 where mk: "mkdtemp K ''peru_copy_'' (ext w) = (r1, s1)"
    by (cases "mkdtemp K ''peru_copy_'' (ext w)")
  show ?thesis
  proof (cases r1)
    case (Inl e)
    with mk assms show ?thesis by (simp add: defs)
  next
    case p: (Inr p)
    show ?thesis
    proof (cases "args ''<target>''")
      case None
      with mk p assms show ?thesis by (simp add: defs)
    next
      case t: (Some target)
      obtain r2 s2 where gt: "get_tree K target s1 = (r2, s2)"
        by (cases "get_tree K target s1")
      show ?thesis
      proof (cases r2)
        case (Inl e)
        with mk p t gt assms show ?thesis by (simp add: defs)
      next
        case tr: (Inr tree)
        obtain r3 s3 where ex: "export_tree K tree (PyStr p) (force K s2) s2 = (r3, s3)"
          by (cases "export_tree K tree (PyStr p) (force K s2) s2")
        show ?thesis
        proof (cases r3)
          case (Inl e)
          with mk p t gt tr ex assms show ?thesis by (simp add: defs)
        next
          case (Inr u)
          with mk p t gt tr ex assms show ?thesis by (simp add: defs)
        qed
      qed
    qed
  qed
qed










text \<open>
  C10. With no \<open><dest>\<close>, \<open>do_copy\<close> starts by calling \<open>mkdtemp\<close>. If the handler
  ends with an exception (from \<open>mkdtemp\<close>, from the resolver or from the export),
  it has written nothing to standard output. If it succeeds, the path is written
  once, as the last step, after the export of the tree to that path has returned.
\<close>

theorem copy_prints_after_export:
  assumes "args ''<dest>'' = Some given" and "\<not> truthy given"
    and "do_copy K args w = (r, w')"
  shows "\<exists>evs. events w' = events w @ Mkdtemp ''peru_copy_'' # evs
           \<and> (case r of
                 Inl e \<Rightarrow> (\<forall>s. Stdout s \<notin> set evs)
               | Inr u \<Rightarrow>
                   (\<exists>p s1 target tree s2 s3.
                      mkdtemp K ''peru_copy_'' (ext w) = (Inr p, s1)
                      \<and> get_tree K target s1 = (Inr tree, s2)
                      \<and> export_tree K tree (PyStr p) (force K s2) s2 = (Inr (), s3)
                      \<and> evs = [GetTree target, ExportTree tree (PyStr p) (force K s2),
                                Stdout (p @ newline)]))"
proof -
  note eq = do_copy_tmp [where args = args and given = given and K = K and w = w, OF assms(1,2)]
  obtain r1 s1 where mk: "mkdtemp K ''peru_copy_'' (ext w) = (r1, s1)"
    by (cases "mkdtemp K ''peru_copy_'' (ext w)")
  show ?thesis
  proof (cases r1)
    case (Inl e)
    with mk eq assms(3) have "r = Inl e" "events w' = events w @ Mkdtemp ''peru_copy_'' # []"
      by auto
    then show ?thesis by (intro exI [of _ "[]"]) simp
  next
    case p: (Inr p)
    show ?thesis
    proof (cases "args ''<target>''")
      case None
      with mk p eq assms(3)
      have "r = Inl (KeyError (PyStr ''<target>''))"
        "events w' = events w @ Mkdtemp ''peru_copy_'' # []"
        by auto
      then show ?thesis by (intro exI [of _ "[]"]) simp
    next
      case t: (Some target)
      obtain r2 s2 where gt: "get_tree K target s1 = (r2, s2)"
        by (cases "get_tree K target s1")
      show ?thesis
      proof (cases r2)
        case (Inl e)
        with mk p t gt eq assms(3)
        have "r = Inl e" "events w' = events w @ Mkdtemp ''peru_copy_'' # [GetTree target]"
          by auto
        then show ?thesis by (intro exI [of _ "[GetTree target]"]) simp
      next
        case tr: (Inr tree)
        let ?ex = "ExportTree tree (PyStr p) (force K s2)"
        obtain r3 s3 where ex: "export_tree K tree (PyStr p) (force K s2) s2 = (r3, s3)"
          by (cases "export_tree K tree (PyStr p) (force K s2) s2")
        show ?thesis
        proof (cases r3)
          case (Inl e)
          with mk p t gt tr ex eq assms(3)
          have "r = Inl e"
            "events w' = events w @ Mkdtemp ''peru_copy_'' # [GetTree target, ?ex]"
            by auto
          then show ?thesis by (intro exI [of _ "[GetTree target, ?ex]"]) simp
        next
          case (Inr u)
          with mk p t gt tr ex eq assms(3)
          have "r = Inr ()"
            "events w' = events w @ Mkdtemp ''peru_copy_'' #
               [GetTree target, ?ex, Stdout (p @ newline)]"
            by auto
          moreover have "\<exists>p' s1' target' tree' s2' s3'.
              mkdtemp K ''peru_copy_'' (ext w) = (Inr p', s1')
              \<and> get_tree K target' s1' = (Inr tree', s2')
              \<and> export_tree K tree' (PyStr p') (force K s2') s2' = (Inr (), s3')
              \<and> [GetTree target, ?ex, Stdout (p @ newline)] =
                  [GetTree target', ExportTree tree' (PyStr p') (force K s2'),
                   Stdout (p' @ newline)]"
            using mk p gt tr ex Inr
            by (intro exI [of _ p] exI [of _ s1] exI [of _ target] exI [of _ tree]
                exI [of _ s2] exI [of _ s3]) simp
          ultimately show ?thesis
            by (intro exI [of _ "[GetTree target, ?ex, Stdout (p @ newline)]"]) simp
        qed
      qed
    qed
  qed
qed

theorem copy_prints_after_export_witness:
  "args_copy_broken ''<dest>'' = Some PyNone \<and> \<not> truthy PyNone
   \<and> do_copy (sample args_copy_broken) args_copy_broken world0 =
       (Inl (PrintableError ''export failed''),
        world0\<lparr>events := [Mkdtemp ''peru_copy_'', GetTree (PyStr ''broken''),
                           ExportTree ''broken'' (PyStr ''/tmp/peru_copy_xxxxx'') False],
               ext := [''/tmp/peru_copy_xxxxx'', ''/tmp'', ''out'']\<rparr>)
   \<and> (\<exists>evs. [Mkdtemp ''peru_copy_'', GetTree (PyStr ''broken''),
               ExportTree ''broken'' (PyStr ''/tmp/peru_copy_xxxxx'') False] =
              Mkdtemp ''peru_copy_'' # evs
            \<and> (\<forall>s. Stdout s \<notin> set evs))"
proof -
  note defs = do_copy_def thenP_def subscript_def returnP_def raiseP_def ext_call_run
    py_print_def emit_def sample_def world0_def fresh_name_def sample_defs
  have d: "args_copy_broken ''<dest>'' = Some PyNone"
    by (simp add: args_copy_broken_def sample_defs)
  have n: "\<not> truthy PyNone" by simp
  have run1: "do_copy (sample args_copy_broken) args_copy_broken world0 =
       (Inl (PrintableError ''export failed''),
        world0\<lparr>events := [Mkdtemp ''peru_copy_'', GetTree (PyStr ''broken''),
                           ExportTree ''broken'' (PyStr ''/tmp/peru_copy_xxxxx'') False],
               ext := [''/tmp/peru_copy_xxxxx'', ''/tmp'', ''out'']\<rparr>)"
    by (simp add: args_copy_broken_def defs)
  from copy_prints_after_export [where args = args_copy_broken and given = PyNone
      and K = "sample args_copy_broken" and w = world0, OF d n run1]
  obtain evs where
    1: "events (world0\<lparr>events := [Mkdtemp ''peru_copy_'', GetTree (PyStr ''broken''),
                           ExportTree ''broken'' (PyStr ''/tmp/peru_copy_xxxxx'') False],
               ext := [''/tmp/peru_copy_xxxxx'', ''/tmp'', ''out'']\<rparr>) =
          events world0 @ Mkdtemp ''peru_copy_'' # evs"
    and 2: "\<forall>s. Stdout s \<notin> set evs"
    unfolding sum.case by (elim exE conjE)
  from 1 have 3: "[Mkdtemp ''peru_copy_'', GetTree (PyStr ''broken''),
               ExportTree ''broken'' (PyStr ''/tmp/peru_copy_xxxxx'') False] =
              Mkdtemp ''peru_copy_'' # evs"
    by (simp add: world0_def)
  from 3 2 have "\<exists>evs. [Mkdtemp ''peru_copy_'', GetTree (PyStr ''broken''),
               ExportTree ''broken'' (PyStr ''/tmp/peru_copy_xxxxx'') False] =
              Mkdtemp ''peru_copy_'' # evs
            \<and> (\<forall>s. Stdout s \<notin> set evs)"
    by - (rule exI [of _ evs], intro conjI; assumption)
  with d n run1 show ?thesis by - (intro conjI; assumption)
qed

end
